theory Spec2Isabelle
  imports Complex_Main
begin

section \<open>Numbers of the program\<close>

text \<open>
  The Discharge column holds float64 readings; a missing reading is NaN. A reading is
  modelled as \<open>real option\<close>, with \<open>None\<close> for NaN: readings are finite numbers and
  arithmetic on them is exact (rounding, overflow and signed zeros are not modelled).
  A computed cell may also be infinite, because numpy divides by zero without raising:
  \<open>fl\<close> is the type of such cells.

  One result of the program turns on a rounding: \<open>CalcTqmean\<close> counts the readings
  above the mean that \<open>Series.mean\<close> returns, and a mean rounded below a reading makes
  that reading count. There the mean is a parameter of the model, and \<open>mean64\<close> below
  is the float64 mean.
\<close>

type_synonym discharge = "real option"

datatype fl = Fin real | PInf | NInf | NaN

fun cell :: "real option \<Rightarrow> fl" where
  "cell None = NaN"
| "cell (Some x) = Fin x"

text \<open>numpy float64 true division: \<open>0/0\<close> is NaN, \<open>x/0\<close> is an infinity, NaN propagates.\<close>

fun fdiv :: "fl \<Rightarrow> fl \<Rightarrow> fl" where
  "fdiv (Fin a) (Fin b) =
     (if b \<noteq> 0 then Fin (a / b)
      else if a = 0 then NaN else if 0 < a then PInf else NInf)"
| "fdiv (Fin a) PInf = Fin 0"
| "fdiv (Fin a) NInf = Fin 0"
| "fdiv PInf (Fin b) = (if 0 \<le> b then PInf else NInf)"
| "fdiv NInf (Fin b) = (if 0 \<le> b then NInf else PInf)"
| "fdiv PInf PInf = NaN"
| "fdiv PInf NInf = NaN"
| "fdiv NInf PInf = NaN"
| "fdiv NInf NInf = NaN"
| "fdiv NaN b = NaN"
| "fdiv a NaN = NaN"

fun fadd :: "fl \<Rightarrow> fl \<Rightarrow> fl" where
  "fadd (Fin a) (Fin b) = Fin (a + b)"
| "fadd PInf NInf = NaN"
| "fadd NInf PInf = NaN"
| "fadd NaN b = NaN"
| "fadd a NaN = NaN"
| "fadd PInf b = PInf"
| "fadd a PInf = PInf"
| "fadd NInf b = NInf"
| "fadd a NInf = NInf"

fun fmul :: "fl \<Rightarrow> fl \<Rightarrow> fl" where
  "fmul (Fin a) (Fin b) = Fin (a * b)"
| "fmul NaN b = NaN"
| "fmul a NaN = NaN"
| "fmul PInf (Fin b) = (if b = 0 then NaN else if 0 < b then PInf else NInf)"
| "fmul NInf (Fin b) = (if b = 0 then NaN else if 0 < b then NInf else PInf)"
| "fmul (Fin a) PInf = (if a = 0 then NaN else if 0 < a then PInf else NInf)"
| "fmul (Fin a) NInf = (if a = 0 then NaN else if 0 < a then NInf else PInf)"
| "fmul PInf PInf = PInf"
| "fmul NInf NInf = PInf"
| "fmul PInf NInf = NInf"
| "fmul NInf PInf = NInf"

text \<open>Arithmetic on readings: NaN in either operand gives NaN.\<close>

fun osub :: "real option \<Rightarrow> real option \<Rightarrow> real option" where
  "osub (Some a) (Some b) = Some (a - b)"
| "osub _ _ = None"

fun oadd :: "real option \<Rightarrow> real option \<Rightarrow> real option" where
  "oadd (Some a) (Some b) = Some (a + b)"
| "oadd _ _ = None"

fun oabs :: "real option \<Rightarrow> real option" where
  "oabs (Some a) = Some \<bar>a\<bar>"
| "oabs None = None"

text \<open>\<open>a > b\<close> on float64: False as soon as one side is NaN.\<close>

fun ogt :: "real option \<Rightarrow> real option \<Rightarrow> bool" where
  "ogt (Some a) (Some b) = (b < a)"
| "ogt _ _ = False"

section \<open>pandas reductions, which skip NaN\<close>

fun notna :: "discharge list \<Rightarrow> real list" where
  "notna [] = []"
| "notna (None # qs) = notna qs"
| "notna (Some x # qs) = x # notna qs"

definition count :: "discharge list \<Rightarrow> nat" where
  "count qs = length (notna qs)"

definition nansum :: "discharge list \<Rightarrow> real" where
  "nansum qs = sum_list (notna qs)"

definition nanmean :: "discharge list \<Rightarrow> real option" where
  "nanmean qs = (if 0 < count qs then Some (nansum qs / real (count qs)) else None)"

text \<open>
  Rounding to float64, for a number in the normal range: \<open>normalise\<close> scales the
  magnitude into the interval from \<open>2 ^ 52\<close> to \<open>2 ^ 53\<close>, where the float64 numbers are
  the integers, and the rounding is to the nearest integer, a tie going to the even
  one. A float64 sum or quotient is the exact one, rounded.
\<close>

definition round_half_even :: "real \<Rightarrow> int" where
  "round_half_even x =
     (let f = \<lfloor>x\<rfloor>; r = x - real_of_int f
      in if r < 1 / 2 then f else if 1 / 2 < r then f + 1 else if even f then f else f + 1)"

fun normalise :: "nat \<Rightarrow> real \<Rightarrow> real \<Rightarrow> real \<times> real" where
  "normalise 0 m s = (m, s)"
| "normalise (Suc n) m s =
     (if 2 ^ 53 \<le> m then normalise n (m / 2) (s * 2)
      else if m < 2 ^ 52 then normalise n (m * 2) (s / 2)
      else (m, s))"

definition float64 :: "real \<Rightarrow> real" where
  "float64 x =
     (if x = 0 then 0
      else case normalise 1100 \<bar>x\<bar> 1 of
             (m, s) \<Rightarrow> sgn x * real_of_int (round_half_even m) * s)"

text \<open>
  \<open>Series.mean\<close> on float64: the readings that are not NaN are added in index order,
  each sum rounded, and the sum is divided by their count, the quotient rounded; NaN
  without a reading. (numpy adds a series of 8 or more readings in blocks; the properties
  below that hold for \<open>mean64\<close> only are stated on shorter series.)
\<close>

definition mean64 :: "discharge list \<Rightarrow> real option" where
  "mean64 qs =
     (let the_sum = fold (\<lambda>x s. float64 (s + x)) (notna qs) 0
      in if 0 < count qs then Some (float64 (the_sum / real (count qs))) else None)"

definition nanmax :: "discharge list \<Rightarrow> real option" where
  "nanmax qs = (case notna qs of [] \<Rightarrow> None | x # xs \<Rightarrow> Some (fold max xs x))"

definition nanmin :: "discharge list \<Rightarrow> real option" where
  "nanmin qs = (case notna qs of [] \<Rightarrow> None | x # xs \<Rightarrow> Some (fold min xs x))"

definition nanmedian :: "discharge list \<Rightarrow> real option" where
  "nanmedian qs =
     (let s = sort (notna qs); n = length s
      in if n = 0 then None
         else if odd n then Some (s ! (n div 2))
         else Some ((s ! (n div 2 - 1) + s ! (n div 2)) / 2))"

text \<open>Sample standard deviation (\<open>ddof = 1\<close>): NaN with fewer than two readings.\<close>

definition nanstd :: "discharge list \<Rightarrow> real option" where
  "nanstd qs =
     (let xs = notna qs; n = length xs
      in if n < 2 then None
         else let m = sum_list xs / real n
              in Some (sqrt (sum_list (map (\<lambda>x. (x - m)\<^sup>2) xs) / real (n - 1))))"

text \<open>
  \<open>Series.rolling(window=w).mean()\<close>: position \<open>i\<close> looks at the \<open>w\<close> readings ending
  at \<open>i\<close>; \<open>min_periods\<close> defaults to \<open>w\<close>, so a window with fewer than \<open>w\<close> readings
  that are not NaN gives NaN.
\<close>

definition window :: "nat \<Rightarrow> discharge list \<Rightarrow> nat \<Rightarrow> discharge list" where
  "window w qs i = drop (Suc i - w) (take (Suc i) qs)"

definition rolling_mean :: "nat \<Rightarrow> discharge list \<Rightarrow> discharge list" where
  "rolling_mean w qs =
     map (\<lambda>i. if w \<le> count (window w qs i) then nanmean (window w qs i) else None)
       [0..<length qs]"

section \<open>The metrics\<close>

text \<open>
  Each metric begins with \<open>Qvalues.dropna()\<close>, whose result is discarded: the series
  the metric works on still has its NaN entries. \<open>CalcTqmean\<close> takes \<open>Series.mean\<close> as
  its first argument.
\<close>

definition CalcTqmean :: "(discharge list \<Rightarrow> real option) \<Rightarrow> discharge list \<Rightarrow> fl" where
  "CalcTqmean mean Qvalues =
     (let qMean = mean Qvalues;
          totalDataPoints = count Qvalues;
          greaterThanMean = count (filter (\<lambda>q. ogt q qMean) Qvalues)
      in fdiv (Fin (real greaterThanMean)) (Fin (real totalDataPoints)))"

text \<open>The loop over \<open>range(len(Qvalues) - 1)\<close>, with \<open>deltaDischarge\<close> as accumulator.\<close>

fun pathlength :: "real option \<Rightarrow> discharge list \<Rightarrow> real option" where
  "pathlength deltaDischarge (a # b # qs) =
     pathlength (oadd deltaDischarge (oabs (osub a b))) (b # qs)"
| "pathlength deltaDischarge [a] = deltaDischarge"
| "pathlength deltaDischarge [] = deltaDischarge"

definition CalcRBindex :: "discharge list \<Rightarrow> fl" where
  "CalcRBindex Qvalues =
     (let totalDischarge = nansum Qvalues;
          deltaDischarge = pathlength (Some 0) Qvalues
      in fdiv (cell deltaDischarge) (Fin totalDischarge))"

definition Calc7Q :: "discharge list \<Rightarrow> fl" where
  "Calc7Q Qvalues =
     (let moveAVG = rolling_mean 7 Qvalues;
          val7Q = nanmin moveAVG
      in cell val7Q)"

definition CalcExceed3TimesMedian :: "discharge list \<Rightarrow> nat" where
  "CalcExceed3TimesMedian Qvalues =
     (let qMedian = nanmedian Qvalues;
          median3x = count (filter (\<lambda>q. ogt q (map_option (\<lambda>m. 3 * m) qMedian)) Qvalues)
      in median3x)"

section \<open>Calendar dates\<close>

text \<open>
  A \<open>Timestamp\<close> of the index is a day of the proleptic Gregorian calendar. Adding
  \<open>DateOffset(days=n)\<close> moves \<open>n\<close> days forward, subtracting \<open>DateOffset(days=1)\<close>
  one day back; \<open>to_ordinal\<close> numbers the days (\<open>Timestamp.toordinal\<close>), so the
  number of days of a window is a difference of ordinals.
\<close>

record date =
  year :: int
  month :: nat
  day :: nat

definition is_leap_year :: "int \<Rightarrow> bool" where
  "is_leap_year y = (y mod 4 = 0 \<and> (y mod 100 \<noteq> 0 \<or> y mod 400 = 0))"

definition days_in_month :: "int \<Rightarrow> nat \<Rightarrow> nat" where
  "days_in_month y m =
     (if m = 2 then (if is_leap_year y then 29 else 28)
      else if m = 4 \<or> m = 6 \<or> m = 9 \<or> m = 11 then 30 else 31)"

definition valid_date :: "date \<Rightarrow> bool" where
  "valid_date d =
     (1 \<le> month d \<and> month d \<le> 12 \<and> 1 \<le> day d \<and> day d \<le> days_in_month (year d) (month d))"

definition next_day :: "date \<Rightarrow> date" where
  "next_day d =
     (if day d < days_in_month (year d) (month d) then d\<lparr>day := day d + 1\<rparr>
      else if month d < 12 then d\<lparr>month := month d + 1, day := 1\<rparr>
      else \<lparr>year = year d + 1, month = 1, day = 1\<rparr>)"

definition prev_day :: "date \<Rightarrow> date" where
  "prev_day d =
     (if 1 < day d then d\<lparr>day := day d - 1\<rparr>
      else if 1 < month d
        then d\<lparr>month := month d - 1, day := days_in_month (year d) (month d - 1)\<rparr>
      else \<lparr>year = year d - 1, month = 12, day = 31\<rparr>)"

fun add_days :: "nat \<Rightarrow> date \<Rightarrow> date" where
  "add_days 0 d = d"
| "add_days (Suc n) d = add_days n (next_day d)"

definition days_before_year :: "int \<Rightarrow> int" where
  "days_before_year y = (y - 1) * 365 + (y - 1) div 4 - (y - 1) div 100 + (y - 1) div 400"

definition days_before_month :: "int \<Rightarrow> nat \<Rightarrow> nat" where
  "days_before_month y m = sum_list (map (days_in_month y) [1..<m])"

definition to_ordinal :: "date \<Rightarrow> int" where
  "to_ordinal d = days_before_year (year d) + int (days_before_month (year d) (month d)) + int (day d)"

text \<open>Timestamps compare as points in time.\<close>

definition date_le :: "date \<Rightarrow> date \<Rightarrow> bool" where
  "date_le a b =
     (year a < year b \<or>
      (year a = year b \<and> (month a < month b \<or> (month a = month b \<and> day a \<le> day b))))"

section \<open>The data frame\<close>

text \<open>
  \<open>DataDF\<close> is the list of its rows in index order. The index of a station's record is
  ascending in time, so its first and last entries are its earliest and latest dates.
\<close>

record row =
  agency_cd :: string
  site_no :: string
  Date :: date
  Discharge :: discharge
  Quality :: string

type_synonym DataFrame = "row list"

datatype error =
    IndexError        \<comment> \<open>\<open>DataDF.index[0]\<close> on a frame without rows\<close>
  | EmptyRangeError   \<comment> \<open>named by the specification; no path of the source raises it\<close>

definition isna_sum :: "DataFrame \<Rightarrow> nat" where
  "isna_sum DataDF = length (filter (\<lambda>r. Discharge r = None) DataDF)"

text \<open>
  \<open>ReadData\<close> after \<open>read_csv\<close> and \<open>set_index\<close>: the argument is the parsed frame, where
  an absent or \<open>Eqp\<close> reading is already NaN. The assignment through
  \<open>DataDF['Discharge'].loc[...]\<close> writes into the frame's own column.
\<close>

definition ReadData :: "DataFrame \<Rightarrow> DataFrame \<times> nat" where
  "ReadData parsed =
     (let DataDF = map (\<lambda>r. if ogt (Some 0) (Discharge r) then r\<lparr>Discharge := None\<rparr> else r) parsed;
          MissingValues = isna_sum DataDF
      in (DataDF, MissingValues))"

text \<open>\<open>DataDF[startDate:endDate]\<close>: label slicing on the index, both end points included.\<close>

definition slice :: "DataFrame \<Rightarrow> date \<Rightarrow> date \<Rightarrow> DataFrame" where
  "slice DataDF startDate endDate =
     filter (\<lambda>r. date_le startDate (Date r) \<and> date_le (Date r) endDate) DataDF"

text \<open>\<open>ClipData\<close> has no raise and no check of the clipped frame: it always returns.\<close>

definition ClipData :: "DataFrame \<Rightarrow> date \<Rightarrow> date \<Rightarrow> error + DataFrame \<times> nat" where
  "ClipData DataDF startDate endDate =
     (let DataDF' = slice DataDF startDate endDate;
          MissingValues = isna_sum DataDF'
      in Inr (DataDF', MissingValues))"

section \<open>Water-year statistics\<close>

text \<open>
  \<open>resample('AS-OCT', label='left')\<close>: one bin per year beginning on October 1, from the
  bin of the first index entry to the bin of the last one, labelled by its first day; a
  bin without rows is kept.
\<close>

definition water_year :: "date \<Rightarrow> int" where
  "water_year d = (if 10 \<le> month d then year d else year d - 1)"

definition resample_AS_OCT :: "DataFrame \<Rightarrow> (date \<times> discharge list) list" where
  "resample_AS_OCT DataDF =
     (case DataDF of
        [] \<Rightarrow> []
      | r # _ \<Rightarrow>
          map (\<lambda>y. (\<lparr>year = y, month = 10, day = 1\<rparr>,
                    map Discharge (filter (\<lambda>r. water_year (Date r) = y) DataDF)))
            [water_year (Date r) .. water_year (Date (last DataDF))])"

text \<open>The end of the period that starts on \<open>startDate\<close> (lines 149-151 and 165-167).\<close>

definition wy_end :: "date \<Rightarrow> date" where
  "wy_end startDate =
     (let endDate = add_days 365 startDate
      in if month endDate = 10 then prev_day endDate else endDate)"

text \<open>The values of \<open>(startDate, endDate)\<close> in the successive passes of the loop.\<close>

fun wy_periods :: "nat \<Rightarrow> date \<Rightarrow> date \<Rightarrow> (date \<times> date) list" where
  "wy_periods 0 startDate endDate = []"
| "wy_periods (Suc n) startDate endDate =
     (startDate, endDate) #
       (let startDate' = next_day endDate in wy_periods n startDate' (wy_end startDate'))"

text \<open>
  The columns of the tables. The monthly table has the columns Mean Flow, Coeff Var,
  Tqmean and R-B Index; the annual table has these and Peak Flow, Median Flow, Skew,
  7Q and 3xMedian.
\<close>

record mo_cols =
  Mean_Flow :: fl
  Coeff_Var :: fl
  Tqmean :: fl
  RB_Index :: fl

record wy_cols = mo_cols +
  Peak_Flow :: fl
  Median_Flow :: fl
  Skew :: fl
  Q7 :: fl
  Median3x :: nat

definition coeffvar :: "discharge list \<Rightarrow> fl" where
  "coeffvar qs = fmul (fdiv (cell (nanstd qs)) (cell (nanmean qs))) (Fin 100)"

text \<open>
  \<open>GetAnnualStatistics\<close>. \<open>scipy.stats.skew\<close> is a parameter, and so is the
  \<open>Series.mean\<close> that \<open>CalcTqmean\<close> calls. The table has the index
  of the resampled series; the loop runs once per entry of that index.
\<close>

definition GetAnnualStatistics ::
  "(discharge list \<Rightarrow> fl) \<Rightarrow> (discharge list \<Rightarrow> real option) \<Rightarrow> DataFrame \<Rightarrow>
     error + (date \<times> wy_cols) list" where
  "GetAnnualStatistics skew mean DataDF =
     (let WY = resample_AS_OCT DataDF
      in case DataDF of
           [] \<Rightarrow> Inl IndexError
         | r # _ \<Rightarrow>
             let startDate = Date r;
                 endDate = wy_end startDate;
                 years = map (\<lambda>(s, e). map Discharge (slice DataDF s e))
                           (wy_periods (length WY) startDate endDate)
             in Inr (map (\<lambda>((label, bin), yearQ).
                       (label,
                        \<lparr>Mean_Flow = cell (nanmean bin),
                         Coeff_Var = coeffvar bin,
                         Tqmean = CalcTqmean mean yearQ,
                         RB_Index = CalcRBindex yearQ,
                         Peak_Flow = cell (nanmax bin),
                         Median_Flow = cell (nanmedian bin),
                         Skew = skew yearQ,
                         Q7 = Calc7Q yearQ,
                         Median3x = CalcExceed3TimesMedian yearQ\<rparr>))
                     (zip WY years)))"

section \<open>Monthly averages\<close>

text \<open>\<open>DataFrame.mean()\<close> of one column: the mean of its cells that are not NaN.\<close>

definition col_mean :: "fl list \<Rightarrow> fl" where
  "col_mean cs =
     (let vs = filter (\<lambda>c. c \<noteq> NaN) cs
      in if vs = [] then NaN else fdiv (fold (\<lambda>c s. fadd s c) vs (Fin 0)) (Fin (real (length vs))))"

definition frame_mean :: "(date \<times> mo_cols) list \<Rightarrow> mo_cols" where
  "frame_mean rows =
     \<lparr>Mean_Flow = col_mean (map (Mean_Flow \<circ> snd) rows),
      Coeff_Var = col_mean (map (Coeff_Var \<circ> snd) rows),
      Tqmean = col_mean (map (Tqmean \<circ> snd) rows),
      RB_Index = col_mean (map (RB_Index \<circ> snd) rows)\<rparr>"

definition GetMonthlyAverages :: "(date \<times> mo_cols) list \<Rightarrow> (nat \<times> mo_cols) list" where
  "GetMonthlyAverages MoDataDF =
     (let MonthAVG = map (\<lambda>i. frame_mean (filter (\<lambda>r. month (fst r) = i + 1) MoDataDF)) [0..<12]
      in map (\<lambda>k. (k, MonthAVG ! (k - 1))) [1..<13])"

section \<open>Definitions used to state the properties\<close>


text \<open>The sum of the absolute day-to-day changes of a series without NaN.\<close>

fun abs_steps :: "real list \<Rightarrow> real" where
  "abs_steps (a # b # rs) = \<bar>a - b\<bar> + abs_steps (b # rs)"
| "abs_steps _ = 0"

text \<open>\<open>a <= b\<close> on float64 cells: False as soon as one side is NaN.\<close>

fun fle :: "fl \<Rightarrow> fl \<Rightarrow> bool" where
  "fle (Fin a) (Fin b) = (a \<le> b)"
| "fle NaN b = False"
| "fle a NaN = False"
| "fle NInf b = True"
| "fle a PInf = True"
| "fle PInf b = False"
| "fle a NInf = False"

text \<open>A row of a station record, for the examples.\<close>

definition obs :: "int \<Rightarrow> nat \<Rightarrow> nat \<Rightarrow> discharge \<Rightarrow> row" where
  "obs y m d q =
     \<lparr>agency_cd = ''USGS'', site_no = ''03335000'', Date = \<lparr>year = y, month = m, day = d\<rparr>,
      Discharge = q, Quality = ''A''\<rparr>"

text \<open>A row of a monthly table, for the examples.\<close>

definition mrow :: "int \<Rightarrow> nat \<Rightarrow> fl \<Rightarrow> date \<times> mo_cols" where
  "mrow y m v =
     (\<lparr>year = y, month = m, day = 1\<rparr>,
      \<lparr>Mean_Flow = v, Coeff_Var = NaN, Tqmean = Fin (1 / 2), RB_Index = PInf\<rparr>)"

text \<open>
  The cells of a row of the annual table that the loop computes, and the same metrics
  computed on the readings of one window.
\<close>

definition window_metrics ::
  "(discharge list \<Rightarrow> fl) \<Rightarrow> (discharge list \<Rightarrow> real option) \<Rightarrow> discharge list \<Rightarrow>
     fl \<times> fl \<times> fl \<times> fl \<times> nat" where
  "window_metrics skew mean q =
     (skew q, CalcTqmean mean q, CalcRBindex q, Calc7Q q, CalcExceed3TimesMedian q)"

definition loop_cells :: "wy_cols \<Rightarrow> fl \<times> fl \<times> fl \<times> fl \<times> nat" where
  "loop_cells c = (Skew c, Tqmean c, RB_Index c, Q7 c, Median3x c)"

section \<open>Missing readings in the path length\<close>

lemma pathlength_None: "pathlength None qs = None"
  by (induction "None :: real option" qs rule: pathlength.induct) simp_all

lemma osub_None: "a = None \<or> b = None \<Longrightarrow> oabs (osub a b) = None"
  by (cases a; cases b) auto

lemma oadd_None: "oadd acc None = None"
  by (cases acc) auto

lemma pathlength_gap:
  "None \<in> set qs \<Longrightarrow> 2 \<le> length qs \<Longrightarrow> pathlength acc qs = None"
proof (induction acc qs rule: pathlength.induct)
  case (1 acc a b qs)
  show ?case
  proof (cases "a = None \<or> b = None")
    case True
    then show ?thesis by (simp add: osub_None oadd_None pathlength_None)
  next
    case False
    with "1.prems" have "None \<in> set (b # qs)" "2 \<le> length (b # qs)"
      by (cases qs; auto)+
    with "1.IH" show ?thesis by simp
  qed
qed simp_all

lemma CalcRBindex_gap: "None \<in> set qs \<Longrightarrow> CalcRBindex qs = NaN"
proof (cases "2 \<le> length qs")
  case True
  assume "None \<in> set qs"
  with True show ?thesis by (simp add: CalcRBindex_def pathlength_gap)
next
  case False
  assume "None \<in> set qs"
  with False have "qs = [None]" by (cases qs; cases "tl qs"; auto)
  then show ?thesis by (simp add: CalcRBindex_def nansum_def)
qed

text \<open>
  C2. \<open>CalcRBindex\<close> takes its differences over the series as it is given, NaN entries
  included: a pair of neighbours with a missing value adds NaN to the path length, and
  a series with a missing value anywhere has the R-B Index NaN.
\<close>

theorem C2_RBindex_missing_is_NaN:
  "(a = None \<or> b = None \<longrightarrow> pathlength acc (a # b # qs) = None) \<and>
   (None \<in> set Qvalues \<longrightarrow> CalcRBindex Qvalues = NaN)"
proof -
  have "pathlength acc (a # b # qs) = None" if "a = None \<or> b = None"
    using that by (simp add: osub_None oadd_None pathlength_None)
  then show ?thesis by (simp add: CalcRBindex_gap)
qed

theorem C2_RBindex_missing_is_NaN_witness:
  "pathlength (Some 0) [Some 1, None, Some 3] = None \<and>
   None \<in> set [Some 1, None, Some (3::real)] \<and>
   CalcRBindex [Some 1, None, Some 3] = NaN"
  using C2_RBindex_missing_is_NaN
    [of "Some 1" None "Some 0" "[Some 3]" "[Some 1, None, Some 3]"]
  by simp

section \<open>Tqmean\<close>


lemma count_filter_le: "count (filter P qs) \<le> count qs"
  by (induction qs rule: notna.induct) (auto simp: count_def le_SucI)



















section \<open>R-B Index of a series without gaps\<close>

lemma notna_map_Some: "notna (map Some rs) = rs"
  by (induction rs) simp_all

lemma pathlength_Some: "pathlength (Some acc) (map Some rs) = Some (acc + abs_steps rs)"
  by (induction rs arbitrary: acc rule: abs_steps.induct) (simp_all add: algebra_simps)

lemma abs_steps_nonneg: "0 \<le> abs_steps rs"
  by (induction rs rule: abs_steps.induct) simp_all

lemma abs_steps_sorted: "sorted rs \<Longrightarrow> rs \<noteq> [] \<Longrightarrow> abs_steps rs = last rs - hd rs"
  by (induction rs rule: abs_steps.induct) auto

lemma sum_list_pos': "rs \<noteq> [] \<Longrightarrow> \<forall>r \<in> set rs. 0 < (r::real) \<Longrightarrow> 0 < sum_list rs"
  by (induction rs) (auto intro: add_pos_nonneg sum_list_nonneg less_imp_le)

lemma CalcRBindex_Some:
  assumes "rs \<noteq> []" "\<forall>r \<in> set rs. 0 < r"
  shows "CalcRBindex (map Some rs) = Fin (abs_steps rs / sum_list rs)"
  using sum_list_pos'[OF assms]
  by (simp add: CalcRBindex_def nansum_def notna_map_Some pathlength_Some)

text \<open>
  C7. For a period without NaN whose readings are all positive, the R-B Index is a
  number that is not negative; when the readings never decrease it is the last reading
  minus the first, over the sum of the readings.
\<close>

theorem C7_RBindex_nonneg_monotone:
  assumes "rs \<noteq> []" and "\<forall>r \<in> set rs. 0 < r"
  shows "(\<exists>t. CalcRBindex (map Some rs) = Fin t \<and> 0 \<le> t) \<and>
         (sorted rs \<longrightarrow> CalcRBindex (map Some rs) = Fin ((last rs - hd rs) / sum_list rs))"
proof -
  have eq: "CalcRBindex (map Some rs) = Fin (abs_steps rs / sum_list rs)"
    by (rule CalcRBindex_Some[OF assms])
  have "0 < sum_list rs" by (rule sum_list_pos'[OF assms])
  then have "0 \<le> abs_steps rs / sum_list rs"
    using abs_steps_nonneg[of rs] by simp
  with eq show ?thesis using assms(1) by (simp add: abs_steps_sorted)
qed

theorem C7_RBindex_nonneg_monotone_witness:
  "[1, 2, 4 :: real] \<noteq> [] \<and> 0 < Min (set [1, 2, 4 :: real]) \<and> sorted [1, 2, 4 :: real] \<and>
   CalcRBindex (map Some [1, 2, 4]) = Fin (3 / 7)"
proof -
  have a: "[1, 2, 4 :: real] \<noteq> []" by simp
  have b: "\<forall>r \<in> set [1, 2, 4 :: real]. 0 < r" by simp
  have c: "sorted [1, 2, 4 :: real]" by simp
  have d: "0 < Min (set [1, 2, 4 :: real])" by simp
  show ?thesis using C7_RBindex_nonneg_monotone[OF a b] a c d by simp
qed

section \<open>Seven-day low flow\<close>

lemma set_notna: "set (notna qs) = {x. Some x \<in> set qs}"
  by (induction qs rule: notna.induct) auto

lemma nanmin_None: "nanmin qs = None \<longleftrightarrow> notna qs = []"
  by (simp add: nanmin_def split: list.splits)

lemma nanmin_Some:
  "nanmin qs = Some m \<longleftrightarrow> notna qs \<noteq> [] \<and> m = Min (set (notna qs))"
proof (cases "notna qs")
  case Nil
  then show ?thesis by (simp add: nanmin_def)
next
  case (Cons x xs)
  have "fold min xs x = Min (set (x # xs))" by (rule Min.set_eq_fold[symmetric])
  with Cons show ?thesis by (auto simp: nanmin_def)
qed

lemma mean_ge_lower:
  assumes "xs \<noteq> []" and "\<forall>x \<in> set xs. (m::real) \<le> x"
  shows "m \<le> sum_list xs / real (length xs)"
proof -
  have "real (length xs) * m \<le> sum_list xs"
    using assms(2) by (induction xs) (auto simp: algebra_simps)
  moreover have "0 < real (length xs)" using assms(1) by simp
  ultimately show ?thesis by (simp add: pos_le_divide_eq mult.commute)
qed

lemma set_window: "set (window w qs i) \<subseteq> set qs"
  unfolding window_def by (meson set_drop_subset set_take_subset subset_trans)

lemma rolling_mean_entry:
  assumes "Some v \<in> set (rolling_mean w qs)" and "0 < w"
  shows "\<exists>i. notna (window w qs i) \<noteq> [] \<and>
             v = sum_list (notna (window w qs i)) / real (length (notna (window w qs i)))"
proof -
  from assms(1) obtain i where i: "w \<le> count (window w qs i)" "nanmean (window w qs i) = Some v"
    by (auto simp: rolling_mean_def split: if_splits)
  from i(1) assms(2) have "notna (window w qs i) \<noteq> []" by (auto simp: count_def)
  with i(2) show ?thesis by (auto simp: nanmean_def nansum_def count_def split: if_splits)
qed

lemma Calc7Q_ge_min:
  assumes "Calc7Q qs = Fin v"
  shows "\<exists>m. nanmin qs = Some m \<and> m \<le> v"
proof -
  from assms have "nanmin (rolling_mean 7 qs) = Some v"
    by (cases "nanmin (rolling_mean 7 qs)") (simp_all add: Calc7Q_def)
  then have "v \<in> set (notna (rolling_mean 7 qs))"
    by (metis nanmin_Some Min_in List.finite_set set_empty)
  then have "Some v \<in> set (rolling_mean 7 qs)" by (simp add: set_notna)
  then obtain i where i: "notna (window 7 qs i) \<noteq> []"
     "v = sum_list (notna (window 7 qs i)) / real (length (notna (window 7 qs i)))"
    using rolling_mean_entry[of v 7 qs] by auto
  have sub: "set (notna (window 7 qs i)) \<subseteq> set (notna qs)"
    using set_window[of 7 qs i] by (auto simp: set_notna)
  with i(1) have ne: "notna qs \<noteq> []" by auto
  then have m: "nanmin qs = Some (Min (set (notna qs)))" by (simp add: nanmin_Some)
  have "\<forall>x \<in> set (notna (window 7 qs i)). Min (set (notna qs)) \<le> x"
    using sub by auto
  from mean_ge_lower[OF i(1) this] i(2) m show ?thesis by simp
qed

lemma notna_all_Some: "\<forall>q \<in> set qs. q \<noteq> None \<Longrightarrow> length (notna qs) = length qs"
  by (induction qs rule: notna.induct) auto

lemma Calc7Q_defined:
  assumes "i + 7 \<le> length qs" and "\<forall>j<7. qs ! (i + j) \<noteq> None"
  shows "\<exists>v. Calc7Q qs = Fin v"
proof -
  let ?k = "i + 6"
  have w: "window 7 qs ?k = drop i (take (i + 7) qs)" by (simp add: window_def add.commute)
  have len: "length (window 7 qs ?k) = 7" using assms(1) by (simp add: w)
  have "\<forall>q \<in> set (window 7 qs ?k). q \<noteq> None"
  proof
    fix q assume "q \<in> set (window 7 qs ?k)"
    then obtain j where "j < 7" "q = window 7 qs ?k ! j"
      using len by (metis in_set_conv_nth)
    then have "q = qs ! (i + j)" using assms(1) by (simp add: w)
    with assms(2) \<open>j < 7\<close> show "q \<noteq> None" by simp
  qed
  then have c: "count (window 7 qs ?k) = 7" using len by (simp add: count_def notna_all_Some)
  have k: "?k < length qs" using assms(1) by simp
  have "rolling_mean 7 qs ! ?k = nanmean (window 7 qs ?k)"
    using k c by (simp add: rolling_mean_def)
  moreover have "nanmean (window 7 qs ?k) \<noteq> None" using c by (simp add: nanmean_def)
  moreover have "rolling_mean 7 qs ! ?k \<in> set (rolling_mean 7 qs)"
    using k by (simp add: rolling_mean_def)
  ultimately obtain x where "Some x \<in> set (rolling_mean 7 qs)" by (metis not_None_eq)
  then have "notna (rolling_mean 7 qs) \<noteq> []" using set_notna[of "rolling_mean 7 qs"] by auto
  then obtain v where "nanmin (rolling_mean 7 qs) = Some v"
    using nanmin_None[of "rolling_mean 7 qs"] by auto
  then show ?thesis by (simp add: Calc7Q_def)
qed

text \<open>
  C3, as stated: for a period with at least 7 readings, the 7Q would be at most the
  smallest reading. The series 1, 2, ..., 8 has the 7Q 4 and the smallest reading 1.
\<close>

theorem C3_7Q_le_min_counterexample:
  "\<not> (7 \<le> count (map Some [1, 2, 3, 4, 5, 6, 7, 8]) \<longrightarrow>
      fle (Calc7Q (map Some [1, 2, 3, 4, 5, 6, 7, 8])) (cell (nanmin (map Some [1, 2, 3, 4, 5, 6, 7, 8]))))"
proof -
  have "Calc7Q (map Some [1, 2, 3, 4, 5, 6, 7, 8]) = Fin 4"
    by (simp add: Calc7Q_def rolling_mean_def window_def count_def nanmean_def nansum_def
        nanmin_def upt_rec)
  moreover have "nanmin (map Some [1, 2, 3, 4, 5, 6, 7, 8]) = Some 1"
    by (simp add: nanmin_def)
  moreover have "7 \<le> count (map Some [1, 2, 3, 4, 5, 6, 7, 8])"
    by (simp add: count_def)
  ultimately show ?thesis by simp
qed

text \<open>
  C3, amended: for a period that has 7 consecutive readings without NaN, the 7Q is a
  number and is greater than or equal to the smallest reading of the period.
\<close>

theorem C3_7Q_ge_min:
  assumes "i + 7 \<le> length Qvalues"
    and "None \<notin> set (take 7 (drop i Qvalues))"
  shows "fle (cell (nanmin Qvalues)) (Calc7Q Qvalues)"
proof -
  have "\<forall>j<7. Qvalues ! (i + j) \<noteq> None"
  proof (intro allI impI)
    fix j :: nat assume j: "j < 7"
    with assms(1) have "take 7 (drop i Qvalues) ! j = Qvalues ! (i + j)" by simp
    moreover from j assms(1) have "take 7 (drop i Qvalues) ! j \<in> set (take 7 (drop i Qvalues))"
      by (intro nth_mem) simp
    ultimately show "Qvalues ! (i + j) \<noteq> None" using assms(2) by metis
  qed
  from Calc7Q_defined[OF assms(1) this] obtain v where v: "Calc7Q Qvalues = Fin v" ..
  from Calc7Q_ge_min[OF v] obtain m where "nanmin Qvalues = Some m" "m \<le> v" by blast
  with v show ?thesis by simp
qed

theorem C3_7Q_ge_min_witness:
  "0 + 7 \<le> length (map Some [1, 2, 3, 4, 5, 6, 7, 8 :: real]) \<and>
   None \<notin> set (take 7 (drop 0 (map Some [1, 2, 3, 4, 5, 6, 7, 8 :: real]))) \<and>
   fle (cell (nanmin (map Some [1, 2, 3, 4, 5, 6, 7, 8]))) (Calc7Q (map Some [1, 2, 3, 4, 5, 6, 7, 8]))"
proof -
  have a: "0 + 7 \<le> length (map Some [1, 2, 3, 4, 5, 6, 7, 8 :: real])" by simp
  have b: "None \<notin> set (take 7 (drop 0 (map Some [1, 2, 3, 4, 5, 6, 7, 8 :: real])))"
    by simp
  show ?thesis using C3_7Q_ge_min[OF a b] a b by blast
qed

section \<open>Periods without a reading\<close>

lemma count_Nil: "count [] = 0"
  by (simp add: count_def)

lemma count_0: "count qs = 0 \<longleftrightarrow> notna qs = []"
  by (simp add: count_def)

lemma notna_window_empty: "notna qs = [] \<Longrightarrow> notna (window w qs i) = []"
proof -
  assume "notna qs = []"
  then have "{x. Some x \<in> set qs} = {}" using set_notna[of qs] by simp
  then have "{x. Some x \<in> set (window w qs i)} = {}" using set_window[of w qs i] by auto
  then show ?thesis using set_notna[of "window w qs i"] by simp
qed

lemma rolling_mean_empty:
  assumes "notna qs = []" and "0 < w"
  shows "notna (rolling_mean w qs) = []"
proof -
  have "\<forall>q \<in> set (rolling_mean w qs). q = None"
    using assms by (auto simp: rolling_mean_def count_def notna_window_empty)
  then have "{x. Some x \<in> set (rolling_mean w qs)} = {}" by auto
  then show ?thesis using set_notna[of "rolling_mean w qs"] by simp
qed

lemma RBindex_no_reading:
  assumes "notna qs = []"
  shows "CalcRBindex qs = NaN"
proof (cases "None \<in> set qs")
  case True
  then show ?thesis by (rule CalcRBindex_gap)
next
  case False
  have "qs = []"
  proof (cases qs)
    case (Cons q qs')
    with False obtain x where "q = Some x" by (cases q) auto
    with Cons assms show ?thesis by simp
  qed simp
  then show ?thesis by (simp add: CalcRBindex_def nansum_def)
qed

text \<open>
  C5, as stated: for a period without any reading, every metric would be NaN. The count
  of the days above three times the median is the number 0 there.
\<close>

theorem C5_counterexample:
  "count [None, None] = 0 \<and> CalcExceed3TimesMedian [None, None] = 0 \<and>
   Fin (real (CalcExceed3TimesMedian [None, None])) \<noteq> NaN"
  by (simp add: count_def CalcExceed3TimesMedian_def nanmedian_def)

text \<open>
  C5, amended: for a period without any reading, Tqmean, the R-B Index, the 7Q, the
  mean, the peak, the median and the coefficient of variation are NaN, returned as
  values without an error; the count of the days above three times the median is 0.
\<close>

theorem C5_no_reading:
  assumes "count Qvalues = 0"
  shows "CalcTqmean mean Qvalues = NaN \<and> CalcRBindex Qvalues = NaN \<and> Calc7Q Qvalues = NaN \<and>
         CalcExceed3TimesMedian Qvalues = 0 \<and>
         cell (nanmean Qvalues) = NaN \<and> cell (nanmax Qvalues) = NaN \<and>
         cell (nanmedian Qvalues) = NaN \<and> coeffvar Qvalues = NaN"
proof -
  from assms have e: "notna Qvalues = []" by (simp add: count_0)
  have "count (filter (\<lambda>q. ogt q (mean Qvalues)) Qvalues) = 0"
    using count_filter_le[of "\<lambda>q. ogt q (mean Qvalues)" Qvalues] assms by simp
  then have 1: "CalcTqmean mean Qvalues = NaN"
    using assms by (simp add: CalcTqmean_def)
  have 2: "CalcRBindex Qvalues = NaN" by (rule RBindex_no_reading[OF e])
  have 3: "Calc7Q Qvalues = NaN"
    using rolling_mean_empty[OF e, of 7] by (simp add: Calc7Q_def nanmin_def)
  have 4: "CalcExceed3TimesMedian Qvalues = 0"
    using e by (simp add: CalcExceed3TimesMedian_def nanmedian_def count_Nil)
  have 5: "cell (nanmean Qvalues) = NaN" using assms by (simp add: nanmean_def)
  have 6: "cell (nanmax Qvalues) = NaN" using e by (simp add: nanmax_def)
  have 7: "cell (nanmedian Qvalues) = NaN" using e by (simp add: nanmedian_def)
  have 8: "coeffvar Qvalues = NaN" using e by (simp add: coeffvar_def nanstd_def)
  from 1 2 3 4 5 6 7 8 show ?thesis by blast
qed

theorem C5_no_reading_witness:
  "count [None, None, None] = 0 \<and>
   CalcTqmean mean64 [None, None, None] = NaN \<and> CalcRBindex [None, None, None] = NaN \<and>
   Calc7Q [None, None, None] = NaN \<and> CalcExceed3TimesMedian [None, None, None] = 0"
proof -
  have a: "count [None, None, None] = 0" by (simp add: count_def)
  show ?thesis using C5_no_reading[OF a, of mean64] a by blast
qed

section \<open>Reading and clipping\<close>

lemma date_le_refl: "date_le a a"
  by (simp add: date_le_def)

lemma sorted_wrt_bounds:
  assumes "sorted_wrt P xs" and "\<And>x. P x x" and "x \<in> set xs"
  shows "P (hd xs) x \<and> P x (last xs)"
proof -
  from assms(3) obtain i where i: "i < length xs" "x = xs ! i" by (metis in_set_conv_nth)
  then have ne: "xs \<noteq> []" by auto
  have "P (xs ! 0) (xs ! i)"
    using assms(1,2) i(1) by (cases "i = 0") (auto simp: sorted_wrt_iff_nth_less)
  moreover have "P (xs ! i) (xs ! (length xs - 1))"
    using assms(1,2) i(1) by (cases "i = length xs - 1") (auto simp: sorted_wrt_iff_nth_less)
  ultimately show ?thesis using ne i(2) by (simp add: hd_conv_nth last_conv_nth)
qed

lemma slice_full:
  assumes "DataDF \<noteq> []" and "sorted_wrt date_le (map Date DataDF)"
  shows "slice DataDF (Date (hd DataDF)) (Date (last DataDF)) = DataDF"
proof -
  have "date_le (Date (hd DataDF)) (Date r) \<and> date_le (Date r) (Date (last DataDF))"
    if "r \<in> set DataDF" for r
  proof -
    from that have "Date r \<in> set (map Date DataDF)" by simp
    from sorted_wrt_bounds[OF assms(2) date_le_refl this] assms(1)
    show ?thesis by (simp add: hd_map last_map)
  qed
  then show ?thesis by (simp add: slice_def)
qed

text \<open>
  C4, as stated: clipping to a range of dates without observations would fail with
  EmptyRangeError. \<open>ClipData\<close> returns the frame without rows and the count 0.
\<close>

theorem C4_counterexample:
  "ClipData [obs 2019 10 1 (Some 5), obs 2019 10 2 None]
     \<lparr>year = 2020, month = 1, day = 1\<rparr> \<lparr>year = 2020, month = 12, day = 31\<rparr> = Inr ([], 0) \<and>
   ClipData [obs 2019 10 1 (Some 5), obs 2019 10 2 None]
     \<lparr>year = 2020, month = 1, day = 1\<rparr> \<lparr>year = 2020, month = 12, day = 31\<rparr> \<noteq> Inl EmptyRangeError"
  by (simp add: ClipData_def slice_def date_le_def obs_def isna_sum_def)

text \<open>
  C4, amended: clipping to a range of dates that holds no observation returns the empty
  frame and the missing count 0, and raises no error.
\<close>

theorem C4_clip_empty_range:
  assumes "\<forall>r \<in> set DataDF. \<not> (date_le startDate (Date r) \<and> date_le (Date r) endDate)"
  shows "ClipData DataDF startDate endDate = Inr ([], 0)"
proof -
  from assms have "slice DataDF startDate endDate = []"
    by (auto simp: slice_def filter_empty_conv)
  then show ?thesis by (simp add: ClipData_def isna_sum_def)
qed

theorem C4_clip_empty_range_witness:
  "\<not> date_le \<lparr>year = 2020, month = 1, day = 1\<rparr> (Date (obs 2019 10 1 (Some 5))) \<and>
   \<not> date_le \<lparr>year = 2020, month = 1, day = 1\<rparr> (Date (obs 2019 10 2 None)) \<and>
   ClipData [obs 2019 10 1 (Some 5), obs 2019 10 2 None]
     \<lparr>year = 2020, month = 1, day = 1\<rparr> \<lparr>year = 2020, month = 12, day = 31\<rparr> = Inr ([], 0)"
proof -
  have a: "\<forall>r \<in> set [obs 2019 10 1 (Some 5), obs 2019 10 2 None].
      \<not> (date_le \<lparr>year = 2020, month = 1, day = 1\<rparr> (Date r) \<and>
         date_le (Date r) \<lparr>year = 2020, month = 12, day = 31\<rparr>)"
    by (simp add: date_le_def obs_def)
  have b: "\<not> date_le \<lparr>year = 2020, month = 1, day = 1\<rparr> (Date (obs 2019 10 1 (Some 5)))"
    "\<not> date_le \<lparr>year = 2020, month = 1, day = 1\<rparr> (Date (obs 2019 10 2 None))"
    by (simp_all add: date_le_def obs_def)
  show ?thesis using C4_clip_empty_range[OF a] b by blast
qed

text \<open>
  C8. \<open>ClipData\<close> keeps exactly the rows whose date lies between the start and the
  end date, end points included, in their order, and counts the NaN among them. For a
  record in ascending date order, clipping to its first and last date returns the same
  frame.
\<close>

theorem C8_clip_full_range:
  "ClipData DataDF startDate endDate =
     Inr (filter (\<lambda>r. date_le startDate (Date r) \<and> date_le (Date r) endDate) DataDF,
          isna_sum (filter (\<lambda>r. date_le startDate (Date r) \<and> date_le (Date r) endDate) DataDF)) \<and>
   (DataDF \<noteq> [] \<and> sorted_wrt date_le (map Date DataDF) \<longrightarrow>
      ClipData DataDF (Date (hd DataDF)) (Date (last DataDF)) = Inr (DataDF, isna_sum DataDF))"
proof -
  have "ClipData DataDF (Date (hd DataDF)) (Date (last DataDF)) = Inr (DataDF, isna_sum DataDF)"
    if "DataDF \<noteq> []" and "sorted_wrt date_le (map Date DataDF)"
    using slice_full[OF that] by (simp add: ClipData_def)
  moreover have "ClipData DataDF startDate endDate =
     Inr (filter (\<lambda>r. date_le startDate (Date r) \<and> date_le (Date r) endDate) DataDF,
          isna_sum (filter (\<lambda>r. date_le startDate (Date r) \<and> date_le (Date r) endDate) DataDF))"
    by (simp add: ClipData_def slice_def Let_def)
  ultimately show ?thesis by blast
qed

theorem C8_clip_full_range_witness:
  "[obs 2019 10 1 (Some 5), obs 2019 10 2 None, obs 2019 10 4 (Some 7)] \<noteq> [] \<and>
   sorted_wrt date_le (map Date [obs 2019 10 1 (Some 5), obs 2019 10 2 None, obs 2019 10 4 (Some 7)]) \<and>
   ClipData [obs 2019 10 1 (Some 5), obs 2019 10 2 None, obs 2019 10 4 (Some 7)]
     \<lparr>year = 2019, month = 10, day = 1\<rparr> \<lparr>year = 2019, month = 10, day = 4\<rparr> =
   Inr ([obs 2019 10 1 (Some 5), obs 2019 10 2 None, obs 2019 10 4 (Some 7)], 1)"
proof -
  have a: "sorted_wrt date_le (map Date [obs 2019 10 1 (Some 5), obs 2019 10 2 None, obs 2019 10 4 (Some 7)])"
    by (simp add: date_le_def obs_def)
  have b: "isna_sum [obs 2019 10 1 (Some 5), obs 2019 10 2 None, obs 2019 10 4 (Some 7)] = 1"
    by (simp add: isna_sum_def obs_def)
  have c: "Date (hd [obs 2019 10 1 (Some 5), obs 2019 10 2 None, obs 2019 10 4 (Some 7)]) = \<lparr>year = 2019, month = 10, day = 1\<rparr>"
    "Date (last [obs 2019 10 1 (Some 5), obs 2019 10 2 None, obs 2019 10 4 (Some 7)]) = \<lparr>year = 2019, month = 10, day = 4\<rparr>"
    by (simp_all add: obs_def)
  have d: "[obs 2019 10 1 (Some 5), obs 2019 10 2 None, obs 2019 10 4 (Some 7)] \<noteq> []" by simp
  have "ClipData [obs 2019 10 1 (Some 5), obs 2019 10 2 None, obs 2019 10 4 (Some 7)]
     (Date (hd [obs 2019 10 1 (Some 5), obs 2019 10 2 None, obs 2019 10 4 (Some 7)]))
     (Date (last [obs 2019 10 1 (Some 5), obs 2019 10 2 None, obs 2019 10 4 (Some 7)])) =
   Inr ([obs 2019 10 1 (Some 5), obs 2019 10 2 None, obs 2019 10 4 (Some 7)],
        isna_sum [obs 2019 10 1 (Some 5), obs 2019 10 2 None, obs 2019 10 4 (Some 7)])"
    using C8_clip_full_range[of "[obs 2019 10 1 (Some 5), obs 2019 10 2 None, obs 2019 10 4 (Some 7)]"] a d
    by blast
  then show ?thesis using a d unfolding b c by blast
qed

text \<open>
  C10. \<open>ReadData\<close> keeps every row and its date. A reading below 0 becomes NaN and the
  other readings are unchanged; the missing count is the count of the readings that
  were NaN in the file plus the count of the readings below 0.
\<close>

theorem C10_ReadData_frame:
  "map Date (fst (ReadData parsed)) = map Date parsed \<and>
   map Discharge (fst (ReadData parsed)) =
     map (\<lambda>r. if ogt (Some 0) (Discharge r) then None else Discharge r) parsed \<and>
   snd (ReadData parsed) =
     length (filter (\<lambda>r. Discharge r = None) parsed) +
     length (filter (\<lambda>r. ogt (Some 0) (Discharge r)) parsed)"
proof -
  have "isna_sum (map (\<lambda>r. if ogt (Some 0) (Discharge r) then r\<lparr>Discharge := None\<rparr> else r) parsed) =
     length (filter (\<lambda>r. Discharge r = None) parsed) +
     length (filter (\<lambda>r. ogt (Some 0) (Discharge r)) parsed)"
    by (induction parsed) (auto simp: isna_sum_def)
  then show ?thesis by (simp add: ReadData_def o_def if_distrib cong: if_cong)
qed

theorem C10_ReadData_frame_witness:
  "map Date (fst (ReadData [obs 2019 10 1 (Some 5), obs 2019 10 2 None, obs 2019 10 3 (Some (- 2))])) =
     map Date [obs 2019 10 1 (Some 5), obs 2019 10 2 None, obs 2019 10 3 (Some (- 2))] \<and>
   map Discharge (fst (ReadData [obs 2019 10 1 (Some 5), obs 2019 10 2 None, obs 2019 10 3 (Some (- 2))])) =
     [Some 5, None, None] \<and>
   snd (ReadData [obs 2019 10 1 (Some 5), obs 2019 10 2 None, obs 2019 10 3 (Some (- 2))]) = 2"
  using C10_ReadData_frame[of "[obs 2019 10 1 (Some 5), obs 2019 10 2 None, obs 2019 10 3 (Some (- 2))]"]
  by (simp add: obs_def)

section \<open>The table of monthly averages\<close>

lemma months_upt: "[1..<13] = [1, 2, 3, 4, 5, 6, 7, 8, 9, 10, 11, 12 :: nat]"
  by (simp add: upt_rec)

text \<open>
  C9. Whatever monthly table it is given, \<open>GetMonthlyAverages\<close> returns 12 rows with
  the index 1 to 12, and the row of month \<open>m\<close> holds, column by column, the mean over
  the rows of the table whose label falls in month \<open>m\<close> of any year.
\<close>

theorem C9_monthly_averages:
  "length (GetMonthlyAverages MoDataDF) = 12 \<and>
   map fst (GetMonthlyAverages MoDataDF) = [1, 2, 3, 4, 5, 6, 7, 8, 9, 10, 11, 12] \<and>
   GetMonthlyAverages MoDataDF =
     map (\<lambda>m. (m, frame_mean (filter (\<lambda>r. month (fst r) = m) MoDataDF))) [1..<13]"
proof -
  have eq: "GetMonthlyAverages MoDataDF =
     map (\<lambda>m. (m, frame_mean (filter (\<lambda>r. month (fst r) = m) MoDataDF))) [1..<13]"
    unfolding GetMonthlyAverages_def Let_def by (rule map_cong) auto
  have idx: "map fst (map (\<lambda>m. (m, frame_mean (filter (\<lambda>r. month (fst r) = m) MoDataDF))) [1..<13]) =
      [1, 2, 3, 4, 5, 6, 7, 8, 9, 10, 11, 12]"
    unfolding months_upt by simp
  show ?thesis using idx unfolding eq by simp
qed

theorem C9_monthly_averages_witness:
  "length (GetMonthlyAverages [mrow 2019 1 (Fin 2), mrow 2019 2 (Fin 3), mrow 2020 1 (Fin 4), mrow 2020 2 NaN]) = 12 \<and>
   map (\<lambda>r. (fst r, Mean_Flow (snd r)))
      (GetMonthlyAverages [mrow 2019 1 (Fin 2), mrow 2019 2 (Fin 3), mrow 2020 1 (Fin 4), mrow 2020 2 NaN]) =
     [(1, Fin 3), (2, Fin 3), (3, NaN), (4, NaN), (5, NaN), (6, NaN), (7, NaN), (8, NaN),
      (9, NaN), (10, NaN), (11, NaN), (12, NaN)]"
proof -
  have eq: "GetMonthlyAverages [mrow 2019 1 (Fin 2), mrow 2019 2 (Fin 3), mrow 2020 1 (Fin 4), mrow 2020 2 NaN] =
     map (\<lambda>m. (m, frame_mean (filter (\<lambda>r. month (fst r) = m)
        [mrow 2019 1 (Fin 2), mrow 2019 2 (Fin 3), mrow 2020 1 (Fin 4), mrow 2020 2 NaN]))) [1..<13]"
    using C9_monthly_averages[of "[mrow 2019 1 (Fin 2), mrow 2019 2 (Fin 3), mrow 2020 1 (Fin 4), mrow 2020 2 NaN]"]
    by blast
  show ?thesis unfolding eq months_upt
    by (simp add: frame_mean_def col_mean_def mrow_def)
qed

section \<open>Water years\<close>

lemma add_days_in_month:
  "dd + k \<le> days_in_month y m \<Longrightarrow>
   add_days k \<lparr>year = y, month = m, day = dd\<rparr> = \<lparr>year = y, month = m, day = dd + k\<rparr>"
  by (induction k arbitrary: dd) (simp_all add: next_day_def)

lemma add_days_add: "add_days (a + b) d = add_days b (add_days a d)"
  by (induction a arbitrary: d) simp_all

lemma add_days_Suc_right: "add_days (Suc n) d = next_day (add_days n d)"
  by (induction n arbitrary: d) simp_all

lemma add_days_chain:
  "add_days a d = d' \<Longrightarrow> add_days b d' = d'' \<Longrightarrow> add_days (a + b) d = d''"
  by (simp add: add_days_add)

lemma days_in_month_pos: "0 < days_in_month y m"
  by (simp add: days_in_month_def)

lemma month_step:
  "add_days (days_in_month y m) \<lparr>year = y, month = m, day = 1\<rparr> =
     (if m < 12 then \<lparr>year = y, month = m + 1, day = 1\<rparr>
      else \<lparr>year = y + 1, month = 1, day = 1\<rparr>)"
proof -
  obtain n where n: "days_in_month y m = Suc n"
    using days_in_month_pos[of y m] by (cases "days_in_month y m") auto
  have "add_days n \<lparr>year = y, month = m, day = 1\<rparr> = \<lparr>year = y, month = m, day = 1 + n\<rparr>"
    by (rule add_days_in_month) (simp add: n)
  then have "add_days (Suc n) \<lparr>year = y, month = m, day = 1\<rparr> =
      next_day \<lparr>year = y, month = m, day = 1 + n\<rparr>"
    by (simp only: add_days_Suc_right)
  then show ?thesis unfolding n[symmetric] by (simp add: n next_day_def)
qed

lemma add_365_october_1:
  "add_days 365 \<lparr>year = y, month = 10, day = 1\<rparr> =
     (if is_leap_year (y + 1) then \<lparr>year = y + 1, month = 9, day = 30\<rparr>
      else \<lparr>year = y + 1, month = 10, day = 1\<rparr>)"
proof -
  let ?f = "if is_leap_year (y + 1) then 29 else 28 :: nat"
  have s10: "add_days 31 \<lparr>year = y, month = 10, day = 1\<rparr> = \<lparr>year = y, month = 11, day = 1\<rparr>"
    using month_step[of y 10] by (simp add: days_in_month_def)
  have s11: "add_days 30 \<lparr>year = y, month = 11, day = 1\<rparr> = \<lparr>year = y, month = 12, day = 1\<rparr>"
    using month_step[of y 11] by (simp add: days_in_month_def)
  have s12: "add_days 31 \<lparr>year = y, month = 12, day = 1\<rparr> = \<lparr>year = y + 1, month = 1, day = 1\<rparr>"
    using month_step[of y 12] by (simp add: days_in_month_def)
  have s1: "add_days 31 \<lparr>year = y + 1, month = 1, day = 1\<rparr> = \<lparr>year = y + 1, month = 2, day = 1\<rparr>"
    using month_step[of "y + 1" 1] by (simp add: days_in_month_def)
  have s2: "add_days ?f \<lparr>year = y + 1, month = 2, day = 1\<rparr> = \<lparr>year = y + 1, month = 3, day = 1\<rparr>"
    using month_step[of "y + 1" 2] by (simp add: days_in_month_def)
  have s3: "add_days 31 \<lparr>year = y + 1, month = 3, day = 1\<rparr> = \<lparr>year = y + 1, month = 4, day = 1\<rparr>"
    using month_step[of "y + 1" 3] by (simp add: days_in_month_def)
  have s4: "add_days 30 \<lparr>year = y + 1, month = 4, day = 1\<rparr> = \<lparr>year = y + 1, month = 5, day = 1\<rparr>"
    using month_step[of "y + 1" 4] by (simp add: days_in_month_def)
  have s5: "add_days 31 \<lparr>year = y + 1, month = 5, day = 1\<rparr> = \<lparr>year = y + 1, month = 6, day = 1\<rparr>"
    using month_step[of "y + 1" 5] by (simp add: days_in_month_def)
  have s6: "add_days 30 \<lparr>year = y + 1, month = 6, day = 1\<rparr> = \<lparr>year = y + 1, month = 7, day = 1\<rparr>"
    using month_step[of "y + 1" 6] by (simp add: days_in_month_def)
  have s7: "add_days 31 \<lparr>year = y + 1, month = 7, day = 1\<rparr> = \<lparr>year = y + 1, month = 8, day = 1\<rparr>"
    using month_step[of "y + 1" 7] by (simp add: days_in_month_def)
  have s8: "add_days 31 \<lparr>year = y + 1, month = 8, day = 1\<rparr> = \<lparr>year = y + 1, month = 9, day = 1\<rparr>"
    using month_step[of "y + 1" 8] by (simp add: days_in_month_def)
  have s9: "add_days 29 \<lparr>year = y + 1, month = 9, day = 1\<rparr> = \<lparr>year = y + 1, month = 9, day = 30\<rparr>"
    using add_days_in_month[of 1 29 "y + 1" 9] by (simp add: days_in_month_def)
  have s9': "add_days 30 \<lparr>year = y + 1, month = 9, day = 1\<rparr> = \<lparr>year = y + 1, month = 10, day = 1\<rparr>"
    using month_step[of "y + 1" 9] by (simp add: days_in_month_def)
  note c = add_days_chain
  have jan: "add_days (31 + 30 + 31 + 31) \<lparr>year = y, month = 10, day = 1\<rparr> =
      \<lparr>year = y + 1, month = 2, day = 1\<rparr>"
    by (rule c[OF c[OF c[OF s10 s11] s12] s1])
  have sep: "add_days (31 + 30 + 31 + 31 + ?f + 31 + 30 + 31 + 30 + 31 + 31)
      \<lparr>year = y, month = 10, day = 1\<rparr> = \<lparr>year = y + 1, month = 9, day = 1\<rparr>"
    by (rule c[OF c[OF c[OF c[OF c[OF c[OF c[OF jan s2] s3] s4] s5] s6] s7] s8])
  show ?thesis
  proof (cases "is_leap_year (y + 1)")
    case True
    have "add_days (31 + 30 + 31 + 31 + ?f + 31 + 30 + 31 + 30 + 31 + 31 + 29)
      \<lparr>year = y, month = 10, day = 1\<rparr> = \<lparr>year = y + 1, month = 9, day = 30\<rparr>"
      by (rule c[OF sep s9])
    with True show ?thesis by simp
  next
    case False
    have "add_days (31 + 30 + 31 + 31 + ?f + 31 + 30 + 31 + 30 + 31 + 31 + 30)
      \<lparr>year = y, month = 10, day = 1\<rparr> = \<lparr>year = y + 1, month = 10, day = 1\<rparr>"
      by (rule c[OF sep s9'])
    with False show ?thesis by simp
  qed
qed

lemma wy_end_october_1:
  "wy_end \<lparr>year = y, month = 10, day = 1\<rparr> = \<lparr>year = y + 1, month = 9, day = 30\<rparr>"
  unfolding wy_end_def Let_def add_365_october_1
  by (simp add: prev_day_def days_in_month_def)

lemma next_day_september_30:
  "next_day \<lparr>year = y, month = 9, day = 30\<rparr> = \<lparr>year = y, month = 10, day = 1\<rparr>"
  by (simp add: next_day_def days_in_month_def)

lemma wy_periods_october_1:
  "wy_periods n \<lparr>year = y, month = 10, day = 1\<rparr> \<lparr>year = y + 1, month = 9, day = 30\<rparr> =
     map (\<lambda>k. (\<lparr>year = y + int k, month = 10, day = 1\<rparr>,
               \<lparr>year = y + int k + 1, month = 9, day = 30\<rparr>)) [0..<n]"
proof (induction n arbitrary: y)
  case 0
  show ?case by simp
next
  case (Suc n)
  have "wy_periods (Suc n) \<lparr>year = y, month = 10, day = 1\<rparr> \<lparr>year = y + 1, month = 9, day = 30\<rparr> =
      (\<lparr>year = y, month = 10, day = 1\<rparr>, \<lparr>year = y + 1, month = 9, day = 30\<rparr>) #
      wy_periods n \<lparr>year = y + 1, month = 10, day = 1\<rparr> \<lparr>year = y + 1 + 1, month = 9, day = 30\<rparr>"
    unfolding wy_periods.simps Let_def next_day_september_30 wy_end_october_1 ..
  also have "\<dots> = map (\<lambda>k. (\<lparr>year = y + int k, month = 10, day = 1\<rparr>,
               \<lparr>year = y + int k + 1, month = 9, day = 30\<rparr>)) [0..<Suc n]"
  proof -
    have "[0..<Suc n] = 0 # map Suc [0..<n]"
      by (simp add: upt_conv_Cons map_Suc_upt del: upt_Suc)
    then show ?thesis unfolding Suc.IH by (simp add: o_def algebra_simps)
  qed
  finally show ?case .
qed

lemma div_next:
  fixes z k :: int
  assumes "0 < k"
  shows "(z + 1) div k = z div k + (if (z + 1) mod k = 0 then 1 else 0)"
proof -
  define q r where "q = z div k" and "r = z mod k"
  have z: "z + 1 = (r + 1) + k * q" by (simp add: q_def r_def)
  have r: "0 \<le> r" "r < k" using assms by (simp_all add: r_def)
  have k: "k \<noteq> 0" using assms by simp
  show ?thesis
  proof (cases "r + 1 < k")
    case True
    with r have "(r + 1) div k = 0" "(r + 1) mod k = r + 1"
      by (simp_all add: div_pos_pos_trivial mod_pos_pos_trivial)
    then have "(z + 1) div k = q" "(z + 1) mod k = r + 1"
      unfolding z using k by simp_all
    with r show ?thesis by (simp add: q_def)
  next
    case False
    with r have "r + 1 = k" by simp
    then have "z + 1 = k * (q + 1)" unfolding z by (simp add: algebra_simps)
    then have "(z + 1) div k = q + 1" "(z + 1) mod k = 0" using k by simp_all
    then show ?thesis by (simp add: q_def)
  qed
qed

lemma div_prev:
  fixes y k :: int
  assumes "0 < k"
  shows "y div k - (y - 1) div k = (if y mod k = 0 then 1 else 0)"
proof -
  have "(y - 1 + 1) div k = (y - 1) div k + (if (y - 1 + 1) mod k = 0 then 1 else 0)"
    by (rule div_next[OF assms])
  moreover have "y - 1 + 1 = y" by simp
  ultimately have "y div k = (y - 1) div k + (if y mod k = 0 then 1 else 0)"
    by (simp only:)
  then show ?thesis by linarith
qed

lemma mod_400_100: "(y::int) mod 400 = 0 \<Longrightarrow> y mod 100 = 0"
  using mod_mod_cancel[of 100 400 y] by simp

lemma mod_100_4: "(y::int) mod 100 = 0 \<Longrightarrow> y mod 4 = 0"
  using mod_mod_cancel[of 4 100 y] by simp

lemma days_before_next_year:
  "days_before_year (y + 1) - days_before_year y = 365 + (if is_leap_year y then 1 else 0)"
proof -
  define a b c where "a = y div 4 - (y - 1) div 4" and "b = y div 100 - (y - 1) div 100"
    and "c = y div 400 - (y - 1) div 400"
  have "days_before_year (y + 1) - days_before_year y = 365 + a - b + c"
    unfolding days_before_year_def a_def b_def c_def by simp
  moreover have "a = (if y mod 4 = 0 then 1 else 0)" unfolding a_def by (rule div_prev) simp
  moreover have "b = (if y mod 100 = 0 then 1 else 0)" unfolding b_def by (rule div_prev) simp
  moreover have "c = (if y mod 400 = 0 then 1 else 0)" unfolding c_def by (rule div_prev) simp
  ultimately have eq: "days_before_year (y + 1) - days_before_year y =
      365 + (if y mod 4 = 0 then 1 else 0) - (if y mod 100 = 0 then 1 else 0) +
      (if y mod 400 = 0 then 1 else 0)" by (simp only:)
  show ?thesis
  proof (cases "y mod 400 = 0")
    case True
    then have h: "y mod 100 = 0" by (rule mod_400_100)
    then have "y mod 4 = 0" by (rule mod_100_4)
    with True h show ?thesis unfolding eq is_leap_year_def by simp
  next
    case n400: False
    show ?thesis
    proof (cases "y mod 100 = 0")
      case True
      then have "y mod 4 = 0" by (rule mod_100_4)
      with True n400 show ?thesis unfolding eq is_leap_year_def by simp
    next
      case False
      with n400 show ?thesis unfolding eq is_leap_year_def by simp
    qed
  qed
qed

lemma water_year_days:
  "to_ordinal \<lparr>year = y + 1, month = 9, day = 30\<rparr> - to_ordinal \<lparr>year = y, month = 10, day = 1\<rparr> + 1 =
     (if is_leap_year (y + 1) then 366 else 365)"
proof -
  have m9: "days_before_month (y + 1) 9 = (if is_leap_year (y + 1) then 244 else 243)"
    by (simp add: days_before_month_def days_in_month_def upt_rec)
  have m10: "days_before_month y 10 = (if is_leap_year y then 274 else 273)"
    by (simp add: days_before_month_def days_in_month_def upt_rec)
  show ?thesis
    using days_before_next_year[of y]
    unfolding to_ordinal_def by (simp add: m9 m10)
qed

lemma days_before_month_Suc:
  "1 \<le> m \<Longrightarrow> days_before_month y (Suc m) = days_before_month y m + days_in_month y m"
  by (simp add: days_before_month_def)

lemma days_before_december: "days_before_month y 12 = (if is_leap_year y then 335 else 334)"
  by (simp add: days_before_month_def days_in_month_def upt_rec)

lemma to_ordinal_next_day:
  assumes "valid_date d"
  shows "to_ordinal (next_day d) = to_ordinal d + 1"
proof (cases "day d < days_in_month (year d) (month d)")
  case True
  then show ?thesis by (simp add: next_day_def to_ordinal_def)
next
  case False
  with assms have last: "day d = days_in_month (year d) (month d)" and m: "1 \<le> month d" "month d \<le> 12"
    by (simp_all add: valid_date_def)
  show ?thesis
  proof (cases "month d < 12")
    case True
    with last m(1) show ?thesis
      by (simp add: next_day_def to_ordinal_def days_before_month_Suc)
  next
    case False
    with m have m12: "month d = 12" by simp
    with last have d31: "day d = 31" by (simp add: days_in_month_def)
    have "days_before_month (year d + 1) 1 = 0" by (simp add: days_before_month_def)
    moreover have "days_before_year (year d + 1) =
        days_before_year (year d) + 365 + (if is_leap_year (year d) then 1 else 0)"
      using days_before_next_year[of "year d"] by linarith
    ultimately show ?thesis
      using m12 d31
      by (simp add: next_day_def to_ordinal_def days_before_december days_in_month_def)
  qed
qed

lemma valid_next_day: "valid_date d \<Longrightarrow> valid_date (next_day d)"
  by (auto simp: valid_date_def next_day_def days_in_month_def)

lemma to_ordinal_add_days:
  "valid_date d \<Longrightarrow> to_ordinal (add_days n d) = to_ordinal d + int n"
  by (induction n arbitrary: d) (simp_all add: to_ordinal_next_day valid_next_day)

lemma upto_as_map: "[Y..Y + int N - 1] = map (\<lambda>k. Y + int k) [0..<N]"
proof (induction N)
  case 0
  show ?case by simp
next
  case (Suc N)
  have "[Y..Y + int (Suc N) - 1] = [Y..Y + int N - 1] @ [Y + int N]"
    using upto_rec2[of Y "Y + int N"] by simp
  with Suc show ?case by simp
qed

lemma resample_full_years:
  assumes "DataDF \<noteq> []"
    and "Date (hd DataDF) = \<lparr>year = Y, month = 10, day = 1\<rparr>"
    and "Date (last DataDF) = \<lparr>year = Y + int N, month = 9, day = 30\<rparr>"
  shows "length (resample_AS_OCT DataDF) = N"
    and "map fst (resample_AS_OCT DataDF) = map (\<lambda>k. \<lparr>year = Y + int k, month = 10, day = 1\<rparr>) [0..<N]"
proof -
  from assms(1) obtain r rs where d: "DataDF = r # rs" by (cases DataDF) auto
  with assms(2) have a: "water_year (Date r) = Y" by (simp add: water_year_def)
  from assms(3) have b: "water_year (Date (last DataDF)) = Y + int N - 1"
    by (simp add: water_year_def)
  have eq: "resample_AS_OCT DataDF =
      map (\<lambda>y. (\<lparr>year = y, month = 10, day = 1\<rparr>,
                map Discharge (filter (\<lambda>r. water_year (Date r) = y) DataDF)))
        (map (\<lambda>k. Y + int k) [0..<N])"
    unfolding resample_AS_OCT_def d list.case a b[unfolded d] upto_as_map ..
  show "length (resample_AS_OCT DataDF) = N" unfolding eq by simp
  show "map fst (resample_AS_OCT DataDF) = map (\<lambda>k. \<lparr>year = Y + int k, month = 10, day = 1\<rparr>) [0..<N]"
    unfolding eq by (simp add: o_def)
qed

lemma wy_end_lands_october_1:
  assumes "add_days 365 startDate = \<lparr>year = y, month = 10, day = 1\<rparr>"
  shows "wy_end startDate = \<lparr>year = y, month = 9, day = 30\<rparr>"
  unfolding wy_end_def Let_def assms by (simp add: prev_day_def days_in_month_def)

lemma wy_end_other_month:
  assumes "month (add_days 365 startDate) \<noteq> 10"
  shows "wy_end startDate = add_days 365 startDate"
  using assms unfolding wy_end_def Let_def by simp

lemma annual_rows:
  assumes "DataDF \<noteq> []"
    and "Date (hd DataDF) = \<lparr>year = Y, month = 10, day = 1\<rparr>"
    and "Date (last DataDF) = \<lparr>year = Y + int N, month = 9, day = 30\<rparr>"
  shows "\<exists>rows. GetAnnualStatistics skew mean DataDF = Inr rows \<and> length rows = N \<and>
           map fst rows = map (\<lambda>k. \<lparr>year = Y + int k, month = 10, day = 1\<rparr>) [0..<N] \<and>
           map (loop_cells \<circ> snd) rows =
             map (\<lambda>k. window_metrics skew mean (map Discharge (slice DataDF
                    \<lparr>year = Y + int k, month = 10, day = 1\<rparr>
                    \<lparr>year = Y + int k + 1, month = 9, day = 30\<rparr>))) [0..<N]"
proof -
  from assms(1) obtain r rs where d: "DataDF = r # rs" by (cases DataDF) auto
  with assms(2) have r: "Date r = \<lparr>year = Y, month = 10, day = 1\<rparr>" by simp
  let ?WY = "resample_AS_OCT DataDF"
  let ?years = "map (\<lambda>k. map Discharge (slice DataDF
                    \<lparr>year = Y + int k, month = 10, day = 1\<rparr>
                    \<lparr>year = Y + int k + 1, month = 9, day = 30\<rparr>)) [0..<N]"
  let ?row = "\<lambda>((label, bin), yearQ).
                       (label,
                        \<lparr>Mean_Flow = cell (nanmean bin),
                         Coeff_Var = coeffvar bin,
                         Tqmean = CalcTqmean mean yearQ,
                         RB_Index = CalcRBindex yearQ,
                         Peak_Flow = cell (nanmax bin),
                         Median_Flow = cell (nanmedian bin),
                         Skew = skew yearQ,
                         Q7 = Calc7Q yearQ,
                         Median3x = CalcExceed3TimesMedian yearQ\<rparr>)"
  have len: "length ?WY = N" by (rule resample_full_years(1)[OF assms])
  have lab: "map fst ?WY = map (\<lambda>k. \<lparr>year = Y + int k, month = 10, day = 1\<rparr>) [0..<N]"
    by (rule resample_full_years(2)[OF assms])
  have years: "map (\<lambda>(s, e). map Discharge (slice DataDF s e))
      (wy_periods (length ?WY) (Date r) (wy_end (Date r))) = ?years"
    unfolding len r wy_end_october_1 wy_periods_october_1 by (simp add: o_def)
  have res: "GetAnnualStatistics skew mean DataDF = Inr (map ?row (zip ?WY ?years))"
    unfolding GetAnnualStatistics_def Let_def years[symmetric] by (simp add: d)
  have l2: "length ?years = N" by simp
  have fst_row: "fst \<circ> ?row = fst \<circ> fst" by (auto simp: fun_eq_iff)
  have cells_row: "loop_cells \<circ> snd \<circ> ?row = window_metrics skew mean \<circ> snd"
    by (auto simp: fun_eq_iff loop_cells_def window_metrics_def)
  have "map fst (map ?row (zip ?WY ?years)) = map fst ?WY"
    unfolding map_map fst_row using len l2 by (simp add: map_fst_zip flip: map_map)
  moreover have "map (loop_cells \<circ> snd) (map ?row (zip ?WY ?years)) = map (window_metrics skew mean) ?years"
    unfolding map_map cells_row using len l2 by (simp add: map_snd_zip flip: map_map)
  moreover have "length (map ?row (zip ?WY ?years)) = N" using len by simp
  ultimately show ?thesis unfolding res lab by (simp add: o_def)
qed

text \<open>
  Records that start on October 1. The end of a period is 365 days after its start,
  moved back by one day when that day is October 1, which gives September 30. For a
  record whose first date is October 1 of year \<open>Y\<close> and whose last date is September 30
  of year \<open>Y + N\<close>, the annual table has \<open>N\<close> rows, labelled October 1 of the years
  \<open>Y\<close> to \<open>Y + N - 1\<close>, and the loop computes row \<open>k\<close> on the window from October 1
  of year \<open>Y + k\<close> to September 30 of the next year. Such a window has 366 days when it
  holds a February 29 and 365 days otherwise; the window from October 1, 2019 to
  September 30, 2020 has 366 days.
\<close>

lemma full_water_years:
  assumes "DataDF \<noteq> []"
    and "Date (hd DataDF) = \<lparr>year = Y, month = 10, day = 1\<rparr>"
    and "Date (last DataDF) = \<lparr>year = Y + int N, month = 9, day = 30\<rparr>"
  shows "(add_days 365 startDate = \<lparr>year = y, month = 10, day = 1\<rparr> \<longrightarrow>
            wy_end startDate = \<lparr>year = y, month = 9, day = 30\<rparr>) \<and>
         (month (add_days 365 startDate) \<noteq> 10 \<longrightarrow> wy_end startDate = add_days 365 startDate) \<and>
         (\<exists>rows. GetAnnualStatistics skew mean DataDF = Inr rows \<and> length rows = N \<and>
            map fst rows = map (\<lambda>k. \<lparr>year = Y + int k, month = 10, day = 1\<rparr>) [0..<N] \<and>
            map (loop_cells \<circ> snd) rows =
              map (\<lambda>k. window_metrics skew mean (map Discharge (slice DataDF
                     \<lparr>year = Y + int k, month = 10, day = 1\<rparr>
                     \<lparr>year = Y + int k + 1, month = 9, day = 30\<rparr>))) [0..<N]) \<and>
         wy_periods N (Date (hd DataDF)) (wy_end (Date (hd DataDF))) =
           map (\<lambda>k. (\<lparr>year = Y + int k, month = 10, day = 1\<rparr>,
                     \<lparr>year = Y + int k + 1, month = 9, day = 30\<rparr>)) [0..<N] \<and>
         (\<forall>k. to_ordinal \<lparr>year = Y + int k + 1, month = 9, day = 30\<rparr> -
                to_ordinal \<lparr>year = Y + int k, month = 10, day = 1\<rparr> + 1 =
                (if is_leap_year (Y + int k + 1) then 366 else 365)) \<and>
         wy_end \<lparr>year = 2019, month = 10, day = 1\<rparr> = \<lparr>year = 2020, month = 9, day = 30\<rparr> \<and>
         to_ordinal \<lparr>year = 2020, month = 9, day = 30\<rparr> -
           to_ordinal \<lparr>year = 2019, month = 10, day = 1\<rparr> + 1 = 366"
proof -
  have 1: "add_days 365 startDate = \<lparr>year = y, month = 10, day = 1\<rparr> \<longrightarrow>
            wy_end startDate = \<lparr>year = y, month = 9, day = 30\<rparr>"
    using wy_end_lands_october_1 by blast
  have 2: "month (add_days 365 startDate) \<noteq> 10 \<longrightarrow> wy_end startDate = add_days 365 startDate"
    using wy_end_other_month by blast
  note 3 = annual_rows[OF assms, of skew mean]
  have 4: "wy_periods N (Date (hd DataDF)) (wy_end (Date (hd DataDF))) =
           map (\<lambda>k. (\<lparr>year = Y + int k, month = 10, day = 1\<rparr>,
                     \<lparr>year = Y + int k + 1, month = 9, day = 30\<rparr>)) [0..<N]"
    unfolding assms(2) wy_end_october_1 by (rule wy_periods_october_1)
  have 5: "\<forall>k. to_ordinal \<lparr>year = Y + int k + 1, month = 9, day = 30\<rparr> -
                to_ordinal \<lparr>year = Y + int k, month = 10, day = 1\<rparr> + 1 =
                (if is_leap_year (Y + int k + 1) then 366 else 365)"
    using water_year_days by blast
  have 6: "wy_end \<lparr>year = 2019, month = 10, day = 1\<rparr> = \<lparr>year = 2020, month = 9, day = 30\<rparr>"
    using wy_end_october_1[of 2019] by simp
  have 7: "to_ordinal \<lparr>year = 2020, month = 9, day = 30\<rparr> -
           to_ordinal \<lparr>year = 2019, month = 10, day = 1\<rparr> + 1 = 366"
    using water_year_days[of 2019] by (simp add: is_leap_year_def)
  from 1 2 3 4 5 6 7 show ?thesis by blast
qed

text \<open>
  C1. The rule of the claim moves the end of a period back by one day only when it
  lands on October 1, as the comment of the source says (\<open>if 10/01, shift back a day\<close>).
  The source tests the month alone: for a record that starts on October 15, 2019 the
  end computed by adding 365 days is October 14, 2020, not October 1, and it is moved
  back to October 13 all the same.
\<close>

theorem C1_october_start_loses_a_day:
  "add_days 365 \<lparr>year = 2019, month = 10, day = 15\<rparr> = \<lparr>year = 2020, month = 10, day = 14\<rparr> \<and>
   wy_end \<lparr>year = 2019, month = 10, day = 15\<rparr> = \<lparr>year = 2020, month = 10, day = 13\<rparr> \<and>
   wy_periods 1 \<lparr>year = 2019, month = 10, day = 15\<rparr> (wy_end \<lparr>year = 2019, month = 10, day = 15\<rparr>) =
     [(\<lparr>year = 2019, month = 10, day = 15\<rparr>, \<lparr>year = 2020, month = 10, day = 13\<rparr>)]"
proof -
  let ?oct1 = "\<lparr>year = 2019, month = 10, day = 1\<rparr>"
  have start: "add_days 14 ?oct1 = \<lparr>year = 2019, month = 10, day = 15\<rparr>"
    using add_days_in_month[of 1 14 2019 10] by (simp add: days_in_month_def)
  have sep30: "add_days 365 ?oct1 = \<lparr>year = 2020, month = 9, day = 30\<rparr>"
    using add_365_october_1[of 2019] by (simp add: is_leap_year_def)
  have oct1: "add_days 1 \<lparr>year = 2020, month = 9, day = 30\<rparr> = \<lparr>year = 2020, month = 10, day = 1\<rparr>"
    using next_day_september_30[of 2020] by simp
  have oct14: "add_days 13 \<lparr>year = 2020, month = 10, day = 1\<rparr> = \<lparr>year = 2020, month = 10, day = 14\<rparr>"
    using add_days_in_month[of 1 13 2020 10] by (simp add: days_in_month_def)
  have "add_days (365 + (1 + 13)) ?oct1 = \<lparr>year = 2020, month = 10, day = 14\<rparr>"
    by (rule add_days_chain[OF sep30 add_days_chain[OF oct1 oct14]])
  moreover have "add_days (14 + 365) ?oct1 = add_days 365 \<lparr>year = 2019, month = 10, day = 15\<rparr>"
    unfolding add_days_add start ..
  ultimately have e: "add_days 365 \<lparr>year = 2019, month = 10, day = 15\<rparr> =
      \<lparr>year = 2020, month = 10, day = 14\<rparr>"
    by simp
  then have w: "wy_end \<lparr>year = 2019, month = 10, day = 15\<rparr> = \<lparr>year = 2020, month = 10, day = 13\<rparr>"
    unfolding wy_end_def Let_def by (simp add: prev_day_def)
  have "wy_periods (Suc 0) \<lparr>year = 2019, month = 10, day = 15\<rparr> \<lparr>year = 2020, month = 10, day = 13\<rparr> =
     [(\<lparr>year = 2019, month = 10, day = 15\<rparr>, \<lparr>year = 2020, month = 10, day = 13\<rparr>)]"
    by (simp add: Let_def)
  with e w show ?thesis by simp
qed

end
